theory Spec2Isabelle
  imports Complex_Main "HOL-Library.Word"
begin

section \<open>Numeric model and constants\<close>

text \<open>
  The program computes with C \<^verbatim>\<open>float\<close> values. They are modelled by the real numbers they
  denote: arithmetic is exact, the constant \<^verbatim>\<open>PI\<close> denotes \<open>\<pi>\<close>, and the non-finite
  values (NaN, the infinities) are not represented. \<^verbatim>\<open>unsigned long\<close> (the millisecond clock) is a 32-bit word, whose subtraction
  wraps. Sizes and offsets (\<^verbatim>\<open>size_t\<close>, \<^verbatim>\<open>char*\<close> relative to the start of the array) are
  natural numbers; the one subtraction on them in the source is guarded by the loop condition.
\<close>

definition PI :: real where
  "PI = pi"

definition DEG2RAD :: real where
  "DEG2RAD = PI / 180"

definition RAD2DEG :: real where
  "RAD2DEG = 180 / PI"

definition PI2 :: real where
  "PI2 = 2 * PI"

text \<open>
  The enumeration of the canard pins. The source gives all four enumerators the value 15
  (a placeholder), so they are four names of one value.
\<close>

type_synonym CANARD = int

definition CANARD_PIN_1 :: CANARD where
  "CANARD_PIN_1 = 15"

definition CANARD_PIN_2 :: CANARD where
  "CANARD_PIN_2 = 15"

definition CANARD_PIN_3 :: CANARD where
  "CANARD_PIN_3 = 15"

definition CANARD_PIN_4 :: CANARD where
  "CANARD_PIN_4 = 15"

section \<open>Library functions the program calls\<close>

text \<open>
  The C library and the Arduino core are not part of the repository. Their functions are
  modelled from the C standard: \<^verbatim>\<open>fabsf\<close>, \<^verbatim>\<open>fmodf\<close> (the remainder that has the sign of
  the dividend, obtained with the quotient truncated towards zero), \<^verbatim>\<open>atan2f\<close> (the angle of
  the point \<open>(x, y)\<close> in \<open>(-\<pi>, \<pi>]\<close>), \<^verbatim>\<open>sqrt\<close>, and \<^verbatim>\<open>snprintf\<close> with the format
  \<^verbatim>\<open>%f\<close> (sign, integer part, a point and six decimals, rounded to nearest, ties to even).
\<close>

definition fabsf :: "real \<Rightarrow> real" where
  "fabsf x = \<bar>x\<bar>"

definition truncf :: "real \<Rightarrow> int" where
  "truncf r = (if 0 \<le> r then \<lfloor>r\<rfloor> else \<lceil>r\<rceil>)"

definition fmodf :: "real \<Rightarrow> real \<Rightarrow> real" where
  "fmodf x y = x - of_int (truncf (x / y)) * y"

definition atan2f :: "real \<Rightarrow> real \<Rightarrow> real" where
  "atan2f y x =
     (if 0 < x then arctan (y / x)
      else if x < 0 then (if 0 \<le> y then arctan (y / x) + pi else arctan (y / x) - pi)
      else if 0 < y then pi / 2
      else if y < 0 then - (pi / 2)
      else 0)"

definition NUL :: char where
  "NUL = CHR 0x00"

definition digit_char :: "nat \<Rightarrow> char" where
  "digit_char d = ''0123456789'' ! d"

fun dec :: "nat \<Rightarrow> string" where
  "dec n = (if n < 10 then [digit_char n] else dec (n div 10) @ [digit_char (n mod 10)])"

declare dec.simps [simp del]

definition dec6 :: "nat \<Rightarrow> string" where
  "dec6 n = map (\<lambda>j. digit_char ((n div 10 ^ j) mod 10)) [5, 4, 3, 2, 1, 0]"

definition round_half_even :: "real \<Rightarrow> int" where
  "round_half_even s =
     (let f = \<lfloor>s\<rfloor> in
      if s - of_int f < 1 / 2 then f
      else if 1 / 2 < s - of_int f then f + 1
      else if even f then f else f + 1)"

definition format_f :: "real \<Rightarrow> string" where
  "format_f v =
     (let n = nat (round_half_even (\<bar>v\<bar> * 1000000)) in
      (if v < 0 then ''-'' else []) @ dec (n div 1000000) @ ''.'' @ dec6 (n mod 1000000))"

subsection \<open>Memory written through a \<^verbatim>\<open>char*\<close>\<close>

text \<open>
  The bytes reachable from the destination pointer, indexed by their offset from the start
  of the destination array, together with the log of the offsets stored to, in order.
\<close>

record mem =
  bytes :: "nat \<Rightarrow> char"
  writes :: "nat list"

definition poke :: "nat \<Rightarrow> char \<Rightarrow> mem \<Rightarrow> mem" where
  "poke a c m = m\<lparr>bytes := (bytes m)(a := c), writes := writes m @ [a]\<rparr>"

definition put_chars :: "nat \<Rightarrow> string \<Rightarrow> mem \<Rightarrow> mem" where
  "put_chars a cs m = fold (\<lambda>(k, c). poke (a + k) c) (enumerate 0 cs) m"

definition snprintf_f :: "nat \<Rightarrow> nat \<Rightarrow> real \<Rightarrow> mem \<Rightarrow> mem" where
  \<comment> \<open>\<^verbatim>\<open>snprintf(str, n, "%f", v)\<close>: at most \<open>n - 1\<close> characters and the terminator;
      nothing when \<open>n = 0\<close>.\<close>
  "snprintf_f str n v m =
     (if n = 0 then m else put_chars str (take (n - 1) (format_f v) @ [NUL]) m)"

definition zeroed :: mem where
  "zeroed = \<lparr>bytes = (\<lambda>_. NUL), writes = []\<rparr>"

definition array_of :: "mem \<Rightarrow> nat \<Rightarrow> string" where
  "array_of m n = map (bytes m) [0..<n]"

definition c_str :: "string \<Rightarrow> string option" where
  \<comment> \<open>The C string held by a char array; \<open>None\<close> when the array has no terminator
      (reading it would run past the array).\<close>
  "c_str arr = (if NUL \<in> set arr then Some (takeWhile (\<lambda>c. c \<noteq> NUL) arr) else None)"

definition Serial_println :: "string \<Rightarrow> string" where
  \<comment> \<open>Arduino's \<^verbatim>\<open>Print::println\<close>: the text, then carriage return and line feed.\<close>
  "Serial_println s = s @ [CHR 0x0D, CHR 0x0A]"

section \<open>Utility functions\<close>

text \<open>
  The loop of \<^verbatim>\<open>PackFloatsInStr\<close>, from its counter \<open>i\<close> on. The source reads
  \<^verbatim>\<open>floats[i]\<close> for \<open>i < float_c\<close>; the properties below take \<open>float_c\<close> to be the
  length of the array, as the one caller does.
\<close>

function PackFloats_loop ::
  "nat \<Rightarrow> nat \<Rightarrow> nat \<Rightarrow> real list \<Rightarrow> nat \<Rightarrow> nat \<Rightarrow> mem \<Rightarrow> mem" where
  "PackFloats_loop i str str_size floats float_c float_chars m =
     (if i < float_c \<and> float_chars \<le> str_size
      then PackFloats_loop (i + 1) (str + float_chars) (str_size - float_chars)
             floats float_c float_chars (snprintf_f str str_size (floats ! i) m)
      else m)"
  by pat_completeness auto
termination
  by (relation "measure (\<lambda>(i, str, str_size, floats, float_c, float_chars, m). float_c - i)") auto

declare PackFloats_loop.simps [simp del]

definition PackFloatsInStr :: "nat \<Rightarrow> nat \<Rightarrow> real list \<Rightarrow> nat \<Rightarrow> nat \<Rightarrow> mem \<Rightarrow> mem" where
  "PackFloatsInStr str str_size floats float_c float_chars m =
     PackFloats_loop 0 str str_size floats float_c float_chars m"

definition fixDegree :: "real \<Rightarrow> real" where
  "fixDegree degrees =
     (let degrees = (if degrees < 0 then degrees + 180 else degrees);
          degrees = fabsf degrees;
          degrees = fmodf degrees 360
      in degrees)"

definition fixRadian :: "real \<Rightarrow> real" where
  "fixRadian radians =
     (let radians = (if radians < 0 then radians + PI else radians);
          radians = fabsf radians;
          radians = fmodf radians PI2
      in radians)"

section \<open>Rocket state and its operations\<close>

record Rocket =
  pitch :: real
  roll :: real
  yaw :: real
  canard_rotations :: "real list"

definition Rocket_init :: Rocket where
  "Rocket_init = \<lparr>pitch = 0, roll = 0, yaw = 0, canard_rotations = [0, 0, 0, 0]\<rparr>"

text \<open>What the sensor object answers during one tick.\<close>

record ICM_20948 =
  dataReady :: bool
  accX :: real
  accY :: real
  accZ :: real
  magX :: real
  magY :: real
  magZ :: real

definition SendDataToSerial :: "Rocket \<Rightarrow> string option" where
  "SendDataToSerial r =
     (let float_data_arr =
            [pitch r, roll r, yaw r,
             canard_rotations r ! 0, canard_rotations r ! 1,
             canard_rotations r ! 2, canard_rotations r ! 3];
          FLOAT_CHARS = 8;
          FLOAT_ARR_ELEMS = length float_data_arr;
          DATA_STR_SIZE = FLOAT_CHARS * FLOAT_ARR_ELEMS + 1;
          rocketDataStr =
            PackFloatsInStr 0 DATA_STR_SIZE float_data_arr FLOAT_ARR_ELEMS FLOAT_CHARS zeroed
      in map_option Serial_println (c_str (array_of rocketDataStr DATA_STR_SIZE)))"

definition SetOrientation :: "real \<Rightarrow> real \<Rightarrow> real \<Rightarrow> Rocket \<Rightarrow> Rocket" where
  "SetOrientation pitch' roll' yaw' r = r\<lparr>pitch := pitch', roll := roll', yaw := yaw'\<rparr>"

definition GetOrientation :: "Rocket \<Rightarrow> real \<times> real \<times> real" where
  "GetOrientation r = (pitch r, roll r, yaw r)"

definition SetCanardRotations :: "real list \<Rightarrow> Rocket \<Rightarrow> real list \<times> Rocket" where
  \<comment> \<open>The argument array is normalised in place and is returned with the state.\<close>
  "SetCanardRotations rad r =
     fold (\<lambda>i (rad, r).
             let rad = rad[i := fixRadian (rad ! i)]
             in (rad, r\<lparr>canard_rotations := (canard_rotations r)[i := rad ! i]\<rparr>))
          [0..<4] (rad, r)"

definition SetOrientationFromSensors :: "real \<Rightarrow> ICM_20948 \<Rightarrow> Rocket \<Rightarrow> Rocket" where
  "SetOrientationFromSensors deltaTime ICM_Obj r =
     (if dataReady ICM_Obj then
        let accX' = accX ICM_Obj;
            accY' = accY ICM_Obj;
            accZ' = accZ ICM_Obj;
            magX' = magX ICM_Obj;
            magY' = magY ICM_Obj;
            magZ' = magZ ICM_Obj;
            roll_a = atan2f accY' accZ';
            pitch_a = atan2f (- accX') (sqrt (accY' * accY' + accZ' * accZ'));
            yaw_m = atan2f magY' magX';
            pitch' = roll_a;
            roll' = roll_a;
            yaw' = yaw_m;
            pitch' = fixRadian pitch';
            roll' = fixRadian roll';
            yaw' = fixRadian yaw'
        in SetOrientation pitch' roll' yaw' r
      else r)"

definition ActuateCanard :: "CANARD \<Rightarrow> real \<Rightarrow> real" where
  \<comment> \<open>Only the conversion to degrees is written in the source; its value is returned here.\<close>
  "ActuateCanard canardPin radians = radians * RAD2DEG"

section \<open>Entry point and loop\<close>

definition StabilizationSystem :: "real \<Rightarrow> Rocket \<Rightarrow> Rocket" where
  "StabilizationSystem deltaTime r =
     fold (\<lambda>i r. r\<lparr>canard_rotations :=
                     (canard_rotations r)
                       [i := fixRadian (canard_rotations r ! i + 24 * DEG2RAD * deltaTime)]\<rparr>)
          [0..<4] r"

record globals =
  rocket :: Rocket
  last_tick :: "32 word"

record tick =
  millis :: "32 word"
  ICM_Obj :: ICM_20948

definition setup_state :: "32 word \<Rightarrow> globals" where
  \<comment> \<open>The state when \<^verbatim>\<open>setup\<close> returns, the clock reading \<open>t0\<close>.\<close>
  "setup_state t0 = \<lparr>rocket = Rocket_init, last_tick = t0\<rparr>"

definition loop :: "tick \<Rightarrow> globals \<Rightarrow> globals \<times> string option" where
  \<comment> \<open>One iteration, compiled with \<^verbatim>\<open>SIM_MODE_ON\<close> as the source defines it; the second
      component is what the iteration sends to the serial port.\<close>
  "loop t g =
     (let current_tick = millis t;
          deltaTime = real (unat (current_tick - last_tick g)) / 1000;
          r = SetOrientationFromSensors deltaTime (ICM_Obj t) (rocket g);
          r = StabilizationSystem deltaTime r
      in (\<lparr>rocket = r, last_tick = current_tick\<rparr>, SendDataToSerial r))"

fun run :: "tick list \<Rightarrow> globals \<Rightarrow> globals" where
  "run [] g = g"
| "run (t # ts) g = run ts (fst (loop t g))"

fun serial_out :: "tick list \<Rightarrow> globals \<Rightarrow> string option list" where
  "serial_out [] g = []"
| "serial_out (t # ts) g = snd (loop t g) # serial_out ts (fst (loop t g))"

section \<open>Notions used to state the properties\<close>

definition congruent_mod :: "real \<Rightarrow> real \<Rightarrow> real \<Rightarrow> bool" where
  \<comment> \<open>\<open>a\<close> and \<open>b\<close> differ by a whole number of turns of size \<open>T\<close>.\<close>
  "congruent_mod T a b = ((a - b) / T \<in> \<int>)"

definition in_turn :: "real \<Rightarrow> bool" where
  \<comment> \<open>An angle in radians within one turn: not negative and below \<open>2\<pi>\<close>.\<close>
  "in_turn a = (0 \<le> a \<and> a < 2 * pi)"

definition angles :: "Rocket \<Rightarrow> real list" where
  \<comment> \<open>Every angle the state stores: the orientation, then the canard rotations.\<close>
  "angles r = [pitch r, roll r, yaw r] @ canard_rotations r"

definition state_ok :: "Rocket \<Rightarrow> bool" where
  \<comment> \<open>The invariant of the loop.\<close>
  "state_ok r = (length (canard_rotations r) = 4 \<and> list_all in_turn (angles r) \<and> pitch r = roll r)"

text \<open>Two sample ticks: one without fresh sensor data, one with.\<close>

definition idle_tick :: "32 word \<Rightarrow> tick" where
  "idle_tick ms =
     \<lparr>millis = ms,
      ICM_Obj = \<lparr>dataReady = False, accX = 0, accY = 0, accZ = 1, magX = 1, magY = 0, magZ = 0\<rparr>\<rparr>"

definition fresh_tick :: "32 word \<Rightarrow> tick" where
  "fresh_tick ms =
     \<lparr>millis = ms,
      ICM_Obj = \<lparr>dataReady = True, accX = 0, accY = 1, accZ = 0, magX = 0, magY = 1, magZ = 0\<rparr>\<rparr>"

definition packed_count :: "nat \<Rightarrow> nat \<Rightarrow> nat \<Rightarrow> nat" where
  \<comment> \<open>How many values fit: all of them when the width is 0, otherwise as many whole
      slots as the size holds.\<close>
  "packed_count float_c str_size float_chars =
     (if float_chars = 0 then float_c else min float_c (str_size div float_chars))"

definition ctl :: "char \<Rightarrow> bool" where
  \<comment> \<open>The two bytes that would end the text early: the terminator and the line feed.\<close>
  "ctl c = (c = NUL \<or> c = CHR 0x0A)"

section \<open>The angle normalizers\<close>

lemma fmodf_nonneg_floor: "0 \<le> x \<Longrightarrow> 0 < y \<Longrightarrow> fmodf x y = x - of_int \<lfloor>x / y\<rfloor> * y"
  by (simp add: fmodf_def truncf_def)

lemma fmodf_range: 
  assumes "0 \<le> x" "0 < y" shows "0 \<le> fmodf x y \<and> fmodf x y < y"
proof -
  have "of_int \<lfloor>x / y\<rfloor> * y \<le> (x / y) * y"
    by (rule mult_right_mono) (use assms in simp_all)
  then have a': "of_int \<lfloor>x / y\<rfloor> * y \<le> x" using assms by simp
  have "x / y < of_int \<lfloor>x / y\<rfloor> + 1" by linarith
  then have "(x / y) * y < (of_int \<lfloor>x / y\<rfloor> + 1) * y"
    by (rule mult_strict_right_mono) (use assms in simp)
  then have b': "x < (of_int \<lfloor>x / y\<rfloor> + 1) * y" using assms by simp
  show ?thesis using a' b' assms by (simp add: fmodf_nonneg_floor algebra_simps)
qed

lemma fmodf_small: 
  assumes "0 \<le> x" "x < y" shows "fmodf x y = x"
proof -
  have "0 \<le> x / y" "x / y < 1" using assms by simp_all
  then have "\<lfloor>x / y\<rfloor> = 0" by linarith
  then show ?thesis using assms by (simp add: fmodf_nonneg_floor)
qed

lemma PI2_pos: "0 < PI2"
  by (simp add: PI2_def PI_def)

lemma fixRadian_bounds: "0 \<le> fixRadian x \<and> fixRadian x < 2 * pi"
  using fmodf_range [of "\<bar>if x < 0 then x + PI else x\<bar>" PI2] PI2_pos
  by (simp add: fixRadian_def fabsf_def Let_def PI2_def PI_def)

lemma fixDegree_bounds: "0 \<le> fixDegree x \<and> fixDegree x < 360"
  using fmodf_range [of "\<bar>if x < 0 then x + 180 else x\<bar>" 360] 
  by (simp add: fixDegree_def fabsf_def Let_def)

lemma fixRadian_fixed: "0 \<le> x \<Longrightarrow> x < 2 * pi \<Longrightarrow> fixRadian x = x"
  using fmodf_small [of x PI2]
  by (simp add: fixRadian_def fabsf_def Let_def PI2_def PI_def)

lemma pi_ge_3: "3 \<le> pi"
  using sin_x_le_x [of "pi / 6"] sin_30 by simp

lemma fmodf_congruent: "0 \<le> x \<Longrightarrow> 0 < y \<Longrightarrow> congruent_mod y (fmodf x y) x"
  by (simp add: fmodf_nonneg_floor congruent_mod_def diff_divide_distrib)

lemma fixRadian_alg: "fixRadian x = fmodf \<bar>if x < 0 then x + pi else x\<bar> (2 * pi)"
  by (simp add: fixRadian_def fabsf_def PI_def PI2_def)

lemma fixDegree_alg: "fixDegree x = fmodf \<bar>if x < 0 then x + 180 else x\<bar> 360"
  by (simp add: fixDegree_def fabsf_def)

lemma fixRadian_cong:
  "congruent_mod (2 * pi) (fixRadian x)
     (if 0 \<le> x then x else if - pi \<le> x then x + pi else - (x + pi))"
  using fmodf_congruent [of "\<bar>if x < 0 then x + pi else x\<bar>" "2 * pi"]
  by (auto simp: fixRadian_alg abs_if)

lemma fixDegree_cong:
  "congruent_mod 360 (fixDegree x)
     (if 0 \<le> x then x else if - 180 \<le> x then x + 180 else - (x + 180))"
  using fmodf_congruent [of "\<bar>if x < 0 then x + 180 else x\<bar>" "360"]
  by (auto simp: fixDegree_alg abs_if)

lemma fmodf_scale: "0 < c \<Longrightarrow> fmodf (x * c) (y * c) = fmodf x y * c"
  by (simp add: fmodf_def algebra_simps)

lemma fixDegree_fixRadian: "fixDegree (x * RAD2DEG) = fixRadian x * RAD2DEG"
proof -
  define k :: real where "k = 180 / pi"
  have c: "0 < k" by (simp add: k_def)
  have h: "pi * k = 180" and t: "(2 * pi) * k = 360" by (simp_all add: k_def)
  have neg: "x * k < 0 \<longleftrightarrow> x < 0"
    using c by (simp add: mult_less_0_iff)
  have a1: "\<bar>x * k\<bar> = \<bar>x\<bar> * k"
    using c by (simp add: abs_mult)
  have "x * k + 180 = (x + pi) * k"
    using h by (simp add: algebra_simps)
  then have a2: "\<bar>x * k + 180\<bar> = \<bar>x + pi\<bar> * k"
    using c by (simp add: abs_mult)
  have s1: "fmodf (\<bar>x\<bar> * k) 360 = fmodf \<bar>x\<bar> (2 * pi) * k"
    using fmodf_scale [OF c, of "\<bar>x\<bar>" "2 * pi"] by (simp only: t)
  have s2: "fmodf (\<bar>x + pi\<bar> * k) 360 = fmodf \<bar>x + pi\<bar> (2 * pi) * k"
    using fmodf_scale [OF c, of "\<bar>x + pi\<bar>" "2 * pi"] by (simp only: t)
  have "fixDegree (x * k) = fixRadian x * k"
  proof (cases "x < 0")
    case True
    then show ?thesis
      unfolding fixDegree_alg fixRadian_alg
      by (simp only: neg if_True a2 s2)
  next
    case False
    then show ?thesis
      unfolding fixDegree_alg fixRadian_alg
      by (simp only: neg if_False a1 s1)
  qed
  then show ?thesis by (simp only: RAD2DEG_def PI_def k_def)
qed

lemma fixRadian_m4: "fixRadian (- 4) = 4 - pi"
proof -
  have "\<bar>- 4 + pi\<bar> = 4 - pi" using pi_less_4 by simp
  moreover have "fmodf (4 - pi) (2 * pi) = 4 - pi"
    using pi_less_4 pi_ge_3 by (intro fmodf_small) simp_all
  ultimately show ?thesis by (simp add: fixRadian_alg)
qed

lemma not_int_between:
  assumes "of_int k < (x::real)" "x < of_int k + 1" shows "x \<notin> \<int>"
proof
  assume "x \<in> \<int>"
  then obtain j where j: "x = of_int j" by (auto elim: Ints_cases)
  from assms have "k < j" "j < k + 1" unfolding j by linarith+
  then show False by simp
qed

text \<open>
  Claim C9. The radian normalizer is idempotent: normalizing an already normalized angle
  gives the same angle again, for every input.
\<close>

theorem fixRadian_idempotent: "fixRadian (fixRadian x) = fixRadian x"
  using fixRadian_bounds [of x] fixRadian_fixed by blast

text \<open>
  Claim C3, as stated: the result of the radian normalizer is congruent modulo a full turn
  to its input, or to its input shifted by half a turn. That fails at \<open>-4\<close>: the result
  is \<open>4 - \<pi>\<close>, which is congruent neither to \<open>-4\<close> nor to \<open>-4 + \<pi>\<close>.
\<close>

theorem fixRadian_congruence_counterexample:
  "\<not> (congruent_mod (2 * pi) (fixRadian (- 4)) (- 4) \<or>
      congruent_mod (2 * pi) (fixRadian (- 4)) (- 4 + pi))"
proof -
  have a: "(4 - pi - (- 4)) / (2 * pi) \<notin> \<int>"
  proof (rule not_int_between [of 0])
    show "of_int 0 < (4 - pi - (- 4)) / (2 * pi)" using pi_less_4 by simp
    show "(4 - pi - (- 4)) / (2 * pi) < of_int 0 + 1" using pi_ge_3 by (simp add: field_simps)
  qed
  have b: "(4 - pi - (- 4 + pi)) / (2 * pi) \<notin> \<int>"
  proof (rule not_int_between [of 0])
    show "of_int 0 < (4 - pi - (- 4 + pi)) / (2 * pi)" using pi_less_4 by simp
    show "(4 - pi - (- 4 + pi)) / (2 * pi) < of_int 0 + 1" using pi_ge_3 by (simp add: field_simps)
  qed
  show ?thesis unfolding congruent_mod_def fixRadian_m4 using a b by blast
qed


text \<open>
  Claim C3, amended. For every input the radian normalizer returns a value in \<open>[0, 2\<pi>)\<close>,
  computed by adding half a turn to a negative input, taking the absolute value and reducing
  modulo a full turn. The result is congruent modulo a full turn to the input when the input is
  not negative, to the input plus half a turn when the input lies in \<open>[-\<pi>, 0)\<close>, and to the
  mirror image \<open>-(x + \<pi>)\<close> when the input is below \<open>-\<pi>\<close>. The degree normalizer is the
  same algorithm with 180 and 360: it has the corresponding properties and agrees with the
  radian normalizer under the conversion of units.
\<close>

theorem fixRadian_fixDegree_normalize:
  "(0 \<le> fixRadian x \<and> fixRadian x < 2 * pi) \<and>
   fixRadian x = fmodf \<bar>if x < 0 then x + pi else x\<bar> (2 * pi) \<and>
   congruent_mod (2 * pi) (fixRadian x)
     (if 0 \<le> x then x else if - pi \<le> x then x + pi else - (x + pi)) \<and>
   (0 \<le> fixDegree d \<and> fixDegree d < 360) \<and>
   fixDegree d = fmodf \<bar>if d < 0 then d + 180 else d\<bar> 360 \<and>
   congruent_mod 360 (fixDegree d)
     (if 0 \<le> d then d else if - 180 \<le> d then d + 180 else - (d + 180)) \<and>
   fixDegree (x * RAD2DEG) = fixRadian x * RAD2DEG"
  using fixRadian_bounds [of x] fixRadian_alg [of x] fixRadian_cong [of x]
    fixDegree_bounds [of d] fixDegree_alg [of d] fixDegree_cong [of d]
    fixDegree_fixRadian [of x]
  by blast

section \<open>Bounds on \<open>\<pi>\<close>\<close>

lemma sin_coeff_vals:
  "sin_coeff 0 = 0" "sin_coeff 1 = 1" "sin_coeff 2 = 0" "sin_coeff 3 = - 1 / 6"
  "sin_coeff 4 = 0" "sin_coeff 5 = 1 / 120" "sin_coeff 6 = 0" "sin_coeff 7 = - 1 / 5040"
  "sin_coeff (Suc 0) = 1"
  by (simp_all add: sin_coeff_def fact_numeral)

lemma sum_upto8:
  "(\<Sum>m<8. f m) = f 0 + f 1 + f 2 + f 3 + f 4 + f 5 + f 6 + f (7::nat)" for f :: "nat \<Rightarrow> real"
  by (simp add: numeral_eq_Suc)

lemma sin_poly8: "\<bar>sin x - (x - x^3 / 6 + x^5 / 120 - x^7 / 5040)\<bar> \<le> \<bar>x\<bar> ^ 8 / 40320" for x :: real
proof -
  have s: "(\<Sum>m<8. sin_coeff m * x ^ m) = x - x^3 / 6 + x^5 / 120 - x^7 / 5040"
    unfolding sum_upto8 by (simp add: sin_coeff_vals)
  have f: "inverse (fact 8) * \<bar>x\<bar> ^ 8 = \<bar>x\<bar> ^ 8 / 40320"
    by (simp add: fact_numeral)
  show ?thesis using Maclaurin_sin_bound [of x 8] unfolding s f .
qed

lemma pi_gt_3141: "3141 / 1000 < pi"
proof -
  define x :: real where "x = 3141 / 6000"
  have "x - x^3 / 6 + x^5 / 120 - x^7 / 5040 + \<bar>x\<bar> ^ 8 / 40320 < 1 / 2"
    by (simp add: x_def power_divide)
  then have "sin x < 1 / 2"
    using sin_poly8 [of x] by linarith
  then have "sin (3141 / 6000 :: real) < 1 / 2"
    by (simp only: x_def)
  then have "sin (3141 / 6000 :: real) < sin (pi / 6)" by (simp add: sin_30)
  then have "3141 / 6000 < pi / 6"
    using pi_ge_3 by (subst (asm) sin_mono_less_eq) simp_all
  then show ?thesis by simp
qed

lemma pi_lt_31425: "pi < 31425 / 10000"
proof -
  define x :: real where "x = 31425 / 60000"
  have "1 / 2 < x - x^3 / 6 + x^5 / 120 - x^7 / 5040 - \<bar>x\<bar> ^ 8 / 40320"
    by (simp add: x_def power_divide)
  then have "1 / 2 < sin x"
    using sin_poly8 [of x] by linarith
  then have "1 / 2 < sin (31425 / 60000 :: real)"
    by (simp only: x_def)
  then have "sin (pi / 6) < sin (31425 / 60000 :: real)" by (simp add: sin_30)
  then have "pi / 6 < 31425 / 60000"
    using pi_ge_3 by (subst (asm) sin_mono_less_eq) simp_all
  then show ?thesis by simp
qed

section \<open>The estimator, the stabilization law and the loop\<close>

lemma upt_0_4: "[0..<4] = [0, 1, 2, Suc 2]"
  by (simp add: upt_rec)

lemma length4E:
  assumes "length xs = 4"
  obtains a b c d where "xs = [a, b, c, d]"
proof -
  from assms obtain a xs1 where 1: "xs = a # xs1" "length xs1 = 3" by (cases xs) auto
  then obtain b xs2 where 2: "xs1 = b # xs2" "length xs2 = 2" by (cases xs1) auto
  then obtain c xs3 where 3: "xs2 = c # xs3" "length xs3 = 1" by (cases xs2) auto
  then obtain d where 4: "xs3 = [d]" by (cases xs3) auto
  from 1 2 3 4 that show thesis by simp
qed

lemma StabilizationSystem_4:
  "StabilizationSystem dt (r\<lparr>canard_rotations := [a, b, c, d]\<rparr>) =
     r\<lparr>canard_rotations := map (\<lambda>x. fixRadian (x + 24 * DEG2RAD * dt)) [a, b, c, d]\<rparr>"
  by (simp add: StabilizationSystem_def upt_0_4)

lemma StabilizationSystem_map:
  assumes "length (canard_rotations r) = 4"
  shows "StabilizationSystem dt r =
     r\<lparr>canard_rotations := map (\<lambda>x. fixRadian (x + 24 * DEG2RAD * dt)) (canard_rotations r)\<rparr>"
proof -
  from assms obtain a b c d where cs: "canard_rotations r = [a, b, c, d]"
    by (rule length4E)
  then have eq: "r\<lparr>canard_rotations := [a, b, c, d]\<rparr> = r" by simp
  show ?thesis
    using StabilizationSystem_4 [where dt = dt and r = r and a = a and b = b and c = c and d = d]
    unfolding eq cs .
qed

lemma SetOrientationFromSensors_canards:
  "canard_rotations (SetOrientationFromSensors dt icm r) = canard_rotations r"
  by (simp add: SetOrientationFromSensors_def SetOrientation_def Let_def)

lemma SetOrientationFromSensors_ready:
  "dataReady icm \<Longrightarrow> SetOrientationFromSensors dt icm r =
     r\<lparr>pitch := fixRadian (atan2f (accY icm) (accZ icm)),
       roll := fixRadian (atan2f (accY icm) (accZ icm)),
       yaw := fixRadian (atan2f (magY icm) (magX icm))\<rparr>"
  by (simp add: SetOrientationFromSensors_def SetOrientation_def Let_def)

lemma SetOrientationFromSensors_not_ready:
  "\<not> dataReady icm \<Longrightarrow> SetOrientationFromSensors dt icm r = r"
  by (simp add: SetOrientationFromSensors_def)


lemma loop_fst:
  "fst (loop t g) =
     \<lparr>rocket = StabilizationSystem (real (unat (millis t - last_tick g)) / 1000)
                 (SetOrientationFromSensors (real (unat (millis t - last_tick g)) / 1000)
                    (ICM_Obj t) (rocket g)),
      last_tick = millis t\<rparr>"
  by (simp add: loop_def Let_def)

lemma run_snoc: "run (ts @ [t]) g = fst (loop t (run ts g))"
  by (induction ts arbitrary: g) simp_all

lemma in_turn_fixRadian: "in_turn (fixRadian x)"
  using fixRadian_bounds [of x] by (simp add: in_turn_def)

lemma state_ok_init: "state_ok Rocket_init"
  by (simp add: state_ok_def Rocket_init_def angles_def in_turn_def)

lemma state_ok_estimator:
  "state_ok r \<Longrightarrow> state_ok (SetOrientationFromSensors dt icm r)"
  by (cases "dataReady icm")
    (simp_all add: SetOrientationFromSensors_ready SetOrientationFromSensors_not_ready
       state_ok_def angles_def in_turn_fixRadian)

lemma state_ok_stabilization:
  assumes "state_ok r" shows "state_ok (StabilizationSystem dt r)"
proof -
  from assms have len: "length (canard_rotations r) = 4" by (simp add: state_ok_def)
  show ?thesis
    using assms unfolding StabilizationSystem_map [OF len]
    by (simp add: state_ok_def angles_def list_all_iff in_turn_fixRadian)
qed

lemma state_ok_loop: "state_ok (rocket g) \<Longrightarrow> state_ok (rocket (fst (loop t g)))"
  by (simp add: loop_fst state_ok_estimator state_ok_stabilization)

lemma state_ok_run: "state_ok (rocket g) \<Longrightarrow> state_ok (rocket (run ts g))"
  by (induction ts arbitrary: g) (simp_all add: state_ok_loop)

lemma state_ok_reachable: "state_ok (rocket (run ts (setup_state t0)))"
  by (rule state_ok_run) (simp add: setup_state_def state_ok_init)

text \<open>
  Claim C2. In every state the program reaches (the state after \<^verbatim>\<open>setup\<close> and after any
  sequence of loop iterations, whatever the sensor answers), the stored pitch equals the
  stored roll: both start at 0, and a sensor update stores the normalized roll formula
  \<open>atan2f accY accZ\<close> in both fields.
\<close>

theorem pitch_equals_roll:
  "pitch (rocket (run ts (setup_state t0))) = roll (rocket (run ts (setup_state t0))) \<and>
   pitch (SetOrientationFromSensors dt (icm\<lparr>dataReady := True\<rparr>) r) =
     fixRadian (atan2f (accY icm) (accZ icm)) \<and>
   roll (SetOrientationFromSensors dt (icm\<lparr>dataReady := True\<rparr>) r) =
     fixRadian (atan2f (accY icm) (accZ icm))"
  using state_ok_reachable [of ts t0]
  by (simp add: state_ok_def SetOrientationFromSensors_ready)

text \<open>
  Claim C7. In every reachable state each of the seven stored angles (pitch, roll, yaw and
  the four canard rotations) lies in \<open>[0, 2\<pi>)\<close>; the canard setter, which the loop does not
  call, stores normalized angles as well.
\<close>

theorem angles_within_one_turn:
  "list_all in_turn (angles (rocket (run ts (setup_state t0)))) \<and>
   length (angles (rocket (run ts (setup_state t0)))) = 7 \<and>
   list_all in_turn (canard_rotations (snd (SetCanardRotations [a, b, c, d]
        (r\<lparr>canard_rotations := [c0, c1, c2, c3]\<rparr>))))"
proof -
  have "list_all in_turn (canard_rotations (snd (SetCanardRotations [a, b, c, d]
        (r\<lparr>canard_rotations := [c0, c1, c2, c3]\<rparr>))))"
    by (simp add: SetCanardRotations_def upt_0_4 in_turn_fixRadian)
  then show ?thesis
    using state_ok_reachable [of ts t0] by (simp add: state_ok_def angles_def)
qed

lemma fixRadian_zero: "fixRadian 0 = 0"
  by (rule fixRadian_fixed) simp_all

lemma fixRadian_m_quarter: "fixRadian (- (pi / 4)) = 3 * pi / 4"
proof -
  have "\<bar>- (pi / 4) + pi\<bar> = 3 * pi / 4" by simp
  moreover have "fmodf (3 * pi / 4) (2 * pi) = 3 * pi / 4"
    by (rule fmodf_small) simp_all
  ultimately show ?thesis by (simp add: fixRadian_alg)
qed

text \<open>
  Claim C1 says that the stored pitch is the normalized \<open>atan2(-accX, sqrt(accY\<^sup>2 + accZ\<^sup>2))\<close>.
  With the sensor reporting fresh data, \<open>accX = 1\<close>, \<open>accY = 0\<close> and \<open>accZ = 1\<close>, the
  estimator stores pitch 0 (the normalized roll formula), while the normalized pitch formula
  is \<open>3\<pi>/4\<close>.
\<close>

theorem estimator_pitch_stores_roll_formula:
  "pitch (SetOrientationFromSensors dt
      \<lparr>dataReady = True, accX = 1, accY = 0, accZ = 1, magX = 1, magY = 0, magZ = 0\<rparr> r) = 0 \<and>
   fixRadian (atan2f (- 1) (sqrt (0 * 0 + 1 * 1))) = 3 * pi / 4"
proof -
  have "atan2f (- 1) (sqrt (0 * 0 + 1 * 1)) = - (pi / 4)"
    by (simp add: atan2f_def arctan_minus arctan_one)
  then show ?thesis
    by (simp add: SetOrientationFromSensors_ready atan2f_def fixRadian_zero fixRadian_m_quarter)
qed

lemma canards_after_loop:
  assumes "length (canard_rotations (rocket g)) = 4"
  shows "canard_rotations (rocket (fst (loop t g))) =
     map (\<lambda>x. fixRadian (x + 24 * DEG2RAD * (real (unat (millis t - last_tick g)) / 1000)))
       (canard_rotations (rocket g))"
proof -
  have "length (canard_rotations (SetOrientationFromSensors
          (real (unat (millis t - last_tick g)) / 1000) (ICM_Obj t) (rocket g))) = 4"
    using assms by (simp add: SetOrientationFromSensors_canards)
  then show ?thesis
    by (simp add: loop_fst StabilizationSystem_map SetOrientationFromSensors_canards)
qed

lemma deg24: "fixRadian (24 * DEG2RAD * 1) = 24 * pi / 180"
  using fixRadian_fixed [of "24 * pi / 180"] by (simp add: DEG2RAD_def PI_def)

lemma deg24_approx: "\<bar>24 * pi / 180 - 4189 / 10000\<bar> < 1 / 10000"
  using pi_gt_3141 pi_lt_31425 by linarith

text \<open>
  Claim C4. The stabilization law replaces each of the four canard angles by the normalized
  sum of the angle and 24 degrees per second times the elapsed time, converted to radians;
  every loop iteration applies it, after the estimator, whatever the sensor reports. From
  canard angles all 0, one application with elapsed time 1 leaves each angle at 24 degrees
  in radians, which is 0.4189 to four decimals; and in every reachable state each canard
  angle lies in \<open>[0, 2\<pi>)\<close>.
\<close>

theorem stabilization_sweep:
  "canard_rotations
     (StabilizationSystem deltaTime (r\<lparr>canard_rotations := [c0, c1, c2, c3]\<rparr>)) =
     map (\<lambda>x. fixRadian (x + 24 * (pi / 180) * deltaTime)) [c0, c1, c2, c3] \<and>
   rocket (fst (loop t g)) =
     StabilizationSystem (real (unat (millis t - last_tick g)) / 1000)
       (SetOrientationFromSensors (real (unat (millis t - last_tick g)) / 1000)
          (ICM_Obj t) (rocket g)) \<and>
   canard_rotations (StabilizationSystem 1 Rocket_init) =
     [24 * pi / 180, 24 * pi / 180, 24 * pi / 180, 24 * pi / 180] \<and>
   \<bar>24 * pi / 180 - 4189 / 10000\<bar> < 1 / 10000 \<and>
   list_all in_turn (canard_rotations (rocket (run ts (setup_state t0))))"
proof -
  have a: "canard_rotations
     (StabilizationSystem deltaTime (r\<lparr>canard_rotations := [c0, c1, c2, c3]\<rparr>)) =
     map (\<lambda>x. fixRadian (x + 24 * (pi / 180) * deltaTime)) [c0, c1, c2, c3]"
    by (simp add: StabilizationSystem_4 DEG2RAD_def PI_def)
  have b: "canard_rotations (StabilizationSystem 1 Rocket_init) =
     [24 * pi / 180, 24 * pi / 180, 24 * pi / 180, 24 * pi / 180]"
    using deg24 by (simp add: Rocket_init_def StabilizationSystem_def upt_0_4)
  have c: "list_all in_turn (canard_rotations (rocket (run ts (setup_state t0))))"
    using state_ok_reachable [of ts t0] by (simp add: state_ok_def angles_def)
  show ?thesis using a b c deg24_approx by (simp only: loop_fst globals.simps simp_thms)
qed

lemma StabilizationSystem_orientation:
  "pitch (StabilizationSystem dt r) = pitch r \<and> roll (StabilizationSystem dt r) = roll r \<and>
   yaw (StabilizationSystem dt r) = yaw r"
  by (simp add: StabilizationSystem_def upt_0_4)

lemma loop_quiet_orientation:
  assumes "\<not> dataReady (ICM_Obj t)"
  shows "pitch (rocket (fst (loop t g))) = pitch (rocket g) \<and>
         roll (rocket (fst (loop t g))) = roll (rocket g) \<and>
         yaw (rocket (fst (loop t g))) = yaw (rocket g)"
  using assms
  by (simp add: loop_fst StabilizationSystem_orientation SetOrientationFromSensors_not_ready)

lemma run_quiet_orientation:
  "list_all (\<lambda>t. \<not> dataReady (ICM_Obj t)) ts \<Longrightarrow>
     pitch (rocket (run ts g)) = pitch (rocket g) \<and>
     roll (rocket (run ts g)) = roll (rocket g) \<and>
     yaw (rocket (run ts g)) = yaw (rocket g)"
  by (induction ts arbitrary: g) (simp_all add: loop_quiet_orientation)

lemma run_append: "run (ts @ us) g = run us (run ts g)"
  by (induction ts arbitrary: g) simp_all

lemma fixRadian_moves:
  assumes x: "in_turn x" and d: "0 < d" "d < 2 * pi"
  shows "fixRadian (x + d) \<noteq> x"
proof
  assume eq: "fixRadian (x + d) = x"
  have "0 \<le> x + d" using x d by (simp add: in_turn_def)
  then have "congruent_mod (2 * pi) (fixRadian (x + d)) (x + d)"
    using fixRadian_cong [of "x + d"] by simp
  then have "- d / (2 * pi) \<in> \<int>"
    by (simp add: eq congruent_mod_def)
  moreover have "- d / (2 * pi) \<notin> \<int>"
  proof (rule not_int_between [of "- 1"])
    show "of_int (- 1) < - d / (2 * pi)" using d by (simp add: field_simps)
    show "- d / (2 * pi) < of_int (- 1) + 1" using d by simp
  qed
  ultimately show False by simp
qed

lemma list_all2_map_neq:
  "list_all P xs \<Longrightarrow> (\<And>x. P x \<Longrightarrow> f x \<noteq> x) \<Longrightarrow> list_all2 (\<lambda>a b. a \<noteq> b) (map f xs) xs"
  by (induction xs) simp_all

text \<open>
  Claim C6. Let the program run from any reachable state through any sequence of ticks on
  which the sensor has no fresh data (five of them, for instance). After each of these ticks
  pitch, roll and yaw are what they were before the first of them, while each canard angle
  is the normalized sum of its previous value and the sweep of that tick, and so differs from
  its previous value whenever the elapsed time is positive and below 15 seconds.
\<close>

theorem no_data_ticks_hold_orientation:
  assumes quiet: "list_all (\<lambda>t. \<not> dataReady (ICM_Obj t)) ts"
    and n: "n < length ts"
    and g: "g = run pre (setup_state t0)"
    and before: "before = run (take n ts) g"
    and after: "after = run (take (Suc n) ts) g"
    and dt: "deltaTime = real (unat (millis (ts ! n) - last_tick before)) / 1000"
  shows "pitch (rocket after) = pitch (rocket g) \<and>
         roll (rocket after) = roll (rocket g) \<and>
         yaw (rocket after) = yaw (rocket g) \<and>
         canard_rotations (rocket after) =
           map (\<lambda>x. fixRadian (x + 24 * (pi / 180) * deltaTime)) (canard_rotations (rocket before)) \<and>
         (0 < deltaTime \<and> deltaTime < 15 \<longrightarrow>
            list_all2 (\<lambda>a b. a \<noteq> b)
              (canard_rotations (rocket after)) (canard_rotations (rocket before)))"
proof -
  have "list_all (\<lambda>t. \<not> dataReady (ICM_Obj t)) (take (Suc n) ts)"
    using quiet by (auto simp: list_all_iff dest: in_set_takeD)
  then have frame: "pitch (rocket after) = pitch (rocket g) \<and>
         roll (rocket after) = roll (rocket g) \<and> yaw (rocket after) = yaw (rocket g)"
    unfolding after by (rule run_quiet_orientation)
  have step: "after = fst (loop (ts ! n) before)"
    using n by (simp add: after before take_Suc_conv_app_nth run_snoc)
  have "before = run (pre @ take n ts) (setup_state t0)"
    unfolding before g by (simp add: run_append)
  then have ok: "state_ok (rocket before)"
    using state_ok_reachable by simp
  then have len: "length (canard_rotations (rocket before)) = 4"
    by (simp add: state_ok_def)
  have canards: "canard_rotations (rocket after) =
      map (\<lambda>x. fixRadian (x + 24 * (pi / 180) * deltaTime)) (canard_rotations (rocket before))"
    unfolding step dt using canards_after_loop [OF len, of "ts ! n"]
    by (simp add: DEG2RAD_def PI_def)
  have moves: "list_all2 (\<lambda>a b. a \<noteq> b)
      (canard_rotations (rocket after)) (canard_rotations (rocket before))"
    if "0 < deltaTime" "deltaTime < 15"
  proof -
    have d: "0 < 24 * (pi / 180) * deltaTime" "24 * (pi / 180) * deltaTime < 2 * pi"
      using that by (simp_all add: field_simps)
    have "list_all in_turn (canard_rotations (rocket before))"
      using ok by (simp add: state_ok_def angles_def)
    then show ?thesis
      unfolding canards using fixRadian_moves [OF _ d] by (rule list_all2_map_neq)
  qed
  show ?thesis using frame canards moves by blast
qed


lemma fixRadian_half_pi: "fixRadian (pi / 2) = pi / 2"
  by (rule fixRadian_fixed) simp_all

lemma last_tick_loop: "last_tick (fst (loop t g)) = millis t"
  by (simp add: loop_fst)

lemma orientation_after_fresh_tick:
  "pitch (rocket (run [fresh_tick 5] (setup_state 0))) = pi / 2 \<and>
   roll (rocket (run [fresh_tick 5] (setup_state 0))) = pi / 2 \<and>
   yaw (rocket (run [fresh_tick 5] (setup_state 0))) = pi / 2"
  by (simp add: loop_fst StabilizationSystem_orientation SetOrientationFromSensors_ready
        fresh_tick_def atan2f_def fixRadian_half_pi)

text \<open>
  Witness for C6: a tick with fresh data turns pitch, roll and yaw to \<open>\<pi>/2\<close>; five ticks
  without fresh data follow, 10 ms apart. The orientation is still \<open>\<pi>/2\<close> after the fifth,
  and every canard angle has moved during the fifth.
\<close>

theorem no_data_ticks_hold_orientation_witness:
  "pitch (rocket (run [idle_tick 10, idle_tick 20, idle_tick 30, idle_tick 40, idle_tick 50]
      (run [fresh_tick 5] (setup_state 0)))) = pi / 2 \<and>
   roll (rocket (run [idle_tick 10, idle_tick 20, idle_tick 30, idle_tick 40, idle_tick 50]
      (run [fresh_tick 5] (setup_state 0)))) = pi / 2 \<and>
   yaw (rocket (run [idle_tick 10, idle_tick 20, idle_tick 30, idle_tick 40, idle_tick 50]
      (run [fresh_tick 5] (setup_state 0)))) = pi / 2 \<and>
   list_all2 (\<lambda>a b. a \<noteq> b)
     (canard_rotations (rocket
        (run [idle_tick 10, idle_tick 20, idle_tick 30, idle_tick 40, idle_tick 50]
          (run [fresh_tick 5] (setup_state 0)))))
     (canard_rotations (rocket
        (run [idle_tick 10, idle_tick 20, idle_tick 30, idle_tick 40]
          (run [fresh_tick 5] (setup_state 0)))))"
proof -
  let ?ts = "[idle_tick 10, idle_tick 20, idle_tick 30, idle_tick 40, idle_tick 50]"
  let ?g = "run [fresh_tick 5] (setup_state 0)"
  have quiet: "list_all (\<lambda>t. \<not> dataReady (ICM_Obj t)) ?ts"
    by (simp add: idle_tick_def)
  have n: "4 < length ?ts" by simp
  have t4: "take 4 ?ts = [idle_tick 10, idle_tick 20, idle_tick 30, idle_tick 40]"
    and t5: "take (Suc 4) ?ts = ?ts"
    by simp_all
  have tick: "last_tick (run (take 4 ?ts) ?g) = 40"
    unfolding t4 by (simp add: last_tick_loop idle_tick_def)
  have dt: "0 < real (unat (millis (?ts ! 4) - last_tick (run (take 4 ?ts) ?g))) / 1000 \<and>
      real (unat (millis (?ts ! 4) - last_tick (run (take 4 ?ts) ?g))) / 1000 < 15"
    unfolding tick by (simp add: idle_tick_def)
  note th = no_data_ticks_hold_orientation
    [OF quiet n refl refl refl refl, of "[fresh_tick 5]" 0, unfolded t4 t5]
  from th have frame:
    "pitch (rocket (run ?ts ?g)) = pitch (rocket ?g)"
    "roll (rocket (run ?ts ?g)) = roll (rocket ?g)"
    "yaw (rocket (run ?ts ?g)) = yaw (rocket ?g)"
    by blast+
  from th dt [unfolded t4] have moves: "list_all2 (\<lambda>a b. a \<noteq> b)
     (canard_rotations (rocket (run ?ts ?g)))
     (canard_rotations (rocket
        (run [idle_tick 10, idle_tick 20, idle_tick 30, idle_tick 40] ?g)))"
    by blast
  show ?thesis
    using moves orientation_after_fresh_tick unfolding frame by blast
qed

section \<open>The serializer and the telemetry line\<close>

lemma format_f_1: "format_f 1 = ''1.000000''"
  by (simp add: format_f_def round_half_even_def dec6_def digit_char_def dec.simps)
lemma format_f_2: "format_f 2 = ''2.000000''"
  by (simp add: format_f_def round_half_even_def dec6_def digit_char_def dec.simps)
lemma format_f_3: "format_f 3 = ''3.000000''"
  by (simp add: format_f_def round_half_even_def dec6_def digit_char_def dec.simps)

lemma w10: "writes (PackFloatsInStr 0 10 [1, 2, 3] 3 8 zeroed) = [0, 1, 2, 3, 4, 5, 6, 7, 8]"
  by (simp add: PackFloatsInStr_def PackFloats_loop.simps snprintf_f_def put_chars_def
        enumerate_eq_zip upt_rec poke_def zeroed_def format_f_1)

lemma a10: "array_of (PackFloatsInStr 0 10 [1, 2, 3] 3 8 zeroed) 10 = ''1.000000'' @ [NUL, NUL]"
  by (simp add: PackFloatsInStr_def PackFloats_loop.simps snprintf_f_def put_chars_def
        enumerate_eq_zip upt_rec poke_def zeroed_def format_f_1 array_of_def NUL_def)

lemma a25: "array_of (PackFloatsInStr 0 25 [1, 2, 3] 3 8 zeroed) 25 = ''1.0000002.0000003.000000'' @ [NUL]"
  by (simp add: PackFloatsInStr_def PackFloats_loop.simps snprintf_f_def put_chars_def
        enumerate_eq_zip upt_rec poke_def zeroed_def format_f_1 format_f_2 format_f_3 array_of_def NUL_def)

lemma put_chars_Nil: "put_chars a [] m = m"
  by (simp add: put_chars_def enumerate_eq_zip)

lemma put_chars_snoc: "put_chars a (cs @ [c]) m = poke (a + length cs) c (put_chars a cs m)"
  by (simp add: put_chars_def enumerate_eq_zip)

lemma writes_put_chars: "writes (put_chars a cs m) = writes m @ [a..<a + length cs]"
  by (induction cs rule: rev_induct) (simp_all add: put_chars_Nil put_chars_snoc poke_def)

lemma bytes_put_chars:
  "bytes (put_chars a cs m) k = (if a \<le> k \<and> k < a + length cs then cs ! (k - a) else bytes m k)"
  by (induction cs rule: rev_induct)
     (auto simp: put_chars_Nil put_chars_snoc poke_def nth_append)

lemma writes_snprintf_f:
  "writes (snprintf_f str n v m) =
     writes m @ [str..<str + (if n = 0 then 0 else min (length (format_f v)) (n - 1) + 1)]"
  by (simp add: snprintf_f_def writes_put_chars)

lemma writes_snprintf_f_bound:
  "set (writes (snprintf_f str n v m)) \<subseteq> set (writes m) \<union> {str..<str + n}"
  by (auto simp: writes_snprintf_f)

lemma writes_loop_bound:
  "set (writes (PackFloats_loop i str str_size floats float_c float_chars m))
     \<subseteq> set (writes m) \<union> {str..<str + str_size}"
proof (induction i str str_size floats float_c float_chars m rule: PackFloats_loop.induct)
  case (1 i str str_size floats float_c float_chars m)
  show ?case
  proof (cases "i < float_c \<and> float_chars \<le> str_size")
    case True
    have "set (writes (PackFloats_loop (i + 1) (str + float_chars) (str_size - float_chars)
             floats float_c float_chars (snprintf_f str str_size (floats ! i) m)))
        \<subseteq> set (writes (snprintf_f str str_size (floats ! i) m))
            \<union> {str + float_chars..<str + float_chars + (str_size - float_chars)}"
      using True by (intro "1.IH") simp
    also have "\<dots> \<subseteq> set (writes m) \<union> {str..<str + str_size}"
      using True writes_snprintf_f_bound [of str str_size "floats ! i" m] by auto
    finally show ?thesis
      using True by (subst PackFloats_loop.simps) simp
  next
    case False
    then show ?thesis by (subst PackFloats_loop.simps) auto
  qed
qed

lemma packed_count_step:
  assumes "i < float_c" "float_chars \<le> str_size"
  shows "packed_count (float_c - i) str_size float_chars =
         Suc (packed_count (float_c - (i + 1)) (str_size - float_chars) float_chars)"
proof (cases "float_chars = 0")
  case True
  then show ?thesis using assms by (simp add: packed_count_def)
next
  case False
  then have "str_size div float_chars = Suc ((str_size - float_chars) div float_chars)"
    using assms by (simp add: le_div_geq)
  then show ?thesis using assms False by (simp add: packed_count_def)
qed

lemma packed_count_stop:
  assumes "\<not> (i < float_c \<and> float_chars \<le> str_size)"
  shows "packed_count (float_c - i) str_size float_chars = 0"
  using assms by (auto simp: packed_count_def)

lemma loop_closed_form:
  "PackFloats_loop i str str_size floats float_c float_chars m =
     fold (\<lambda>j. snprintf_f (str + (j - i) * float_chars) (str_size - (j - i) * float_chars)
                  (floats ! j))
          [i..<i + packed_count (float_c - i) str_size float_chars] m"
proof (induction i str str_size floats float_c float_chars m rule: PackFloats_loop.induct)
  case (1 i str str_size floats float_c float_chars m)
  show ?case
  proof (cases "i < float_c \<and> float_chars \<le> str_size")
    case True
    let ?k = "packed_count (float_c - (i + 1)) (str_size - float_chars) float_chars"
    let ?m = "snprintf_f str str_size (floats ! i) m"
    have k: "packed_count (float_c - i) str_size float_chars = Suc ?k"
      using True by (simp add: packed_count_step)
    have "PackFloats_loop i str str_size floats float_c float_chars m =
        PackFloats_loop (i + 1) (str + float_chars) (str_size - float_chars)
          floats float_c float_chars ?m"
      using True by (subst PackFloats_loop.simps) simp
    also have "\<dots> = fold (\<lambda>j. snprintf_f (str + float_chars + (j - (i + 1)) * float_chars)
                  (str_size - float_chars - (j - (i + 1)) * float_chars) (floats ! j))
          [i + 1..<i + 1 + ?k] ?m"
      using True by (intro "1.IH") simp
    also have "\<dots> = fold (\<lambda>j. snprintf_f (str + (j - i) * float_chars)
                  (str_size - (j - i) * float_chars) (floats ! j))
          [i + 1..<i + 1 + ?k] ?m"
    proof (rule fold_cong [OF refl refl])
      fix j assume "j \<in> set [i + 1..<i + 1 + ?k]"
      then have "j - i = Suc (j - (i + 1))" by auto
      then show "snprintf_f (str + float_chars + (j - (i + 1)) * float_chars)
                  (str_size - float_chars - (j - (i + 1)) * float_chars) (floats ! j) =
                 snprintf_f (str + (j - i) * float_chars)
                  (str_size - (j - i) * float_chars) (floats ! j)"
        by (simp add: algebra_simps)
    qed
    also have "\<dots> = fold (\<lambda>j. snprintf_f (str + (j - i) * float_chars)
                  (str_size - (j - i) * float_chars) (floats ! j))
          [i..<i + Suc ?k] m"
    proof -
      have "[i..<i + Suc ?k] = i # [i + 1..<i + 1 + ?k]"
        by (simp add: upt_rec [of i])
      then show ?thesis by simp
    qed
    finally show ?thesis by (simp only: k)
  next
    case False
    then have "PackFloats_loop i str str_size floats float_c float_chars m = m"
      by (subst PackFloats_loop.simps) auto
    then show ?thesis
      using False by (simp add: packed_count_stop)
  qed
qed

lemma PackFloatsInStr_closed_form:
  "PackFloatsInStr str str_size floats float_c float_chars m =
     fold (\<lambda>j. snprintf_f (str + j * float_chars) (str_size - j * float_chars) (floats ! j))
          [0..<packed_count float_c str_size float_chars] m"
  using loop_closed_form [of 0 str str_size floats float_c float_chars m]
  by (simp add: PackFloatsInStr_def)

lemma packed_count_full_or_short:
  "packed_count float_c str_size float_chars = float_c \<or>
   str_size - packed_count float_c str_size float_chars * float_chars < float_chars"
proof (cases "float_chars = 0 \<or> float_c \<le> str_size div float_chars")
  case True
  then show ?thesis by (auto simp: packed_count_def)
next
  case False
  then have "packed_count float_c str_size float_chars = str_size div float_chars" "0 < float_chars"
    by (auto simp: packed_count_def)
  moreover have "str_size - str_size div float_chars * float_chars = str_size mod float_chars"
    by (simp add: minus_div_mult_eq_mod)
  ultimately show ?thesis by simp
qed

lemma digit_char_plain: "d < 10 \<Longrightarrow> \<not> ctl (digit_char d)"
proof -
  assume "d < 10"
  then have "d \<in> {0, 1, 2, 3, 4, 5, 6, 7, 8, 9}" by auto
  then show ?thesis by (auto simp: digit_char_def ctl_def NUL_def)
qed

lemma dec_plain: "c \<in> set (dec n) \<Longrightarrow> \<not> ctl c"
proof (induction n rule: dec.induct)
  case (1 n)
  show ?case
  proof (cases "n < 10")
    case True
    with "1.prems" have "c = digit_char n" by (subst (asm) dec.simps) simp
    then show ?thesis using True digit_char_plain [of n] by simp
  next
    case False
    with "1.prems" have "c \<in> set (dec (n div 10)) \<or> c = digit_char (n mod 10)"
      by (subst (asm) dec.simps) auto
    moreover have "\<not> ctl (digit_char (n mod 10))" by (rule digit_char_plain) simp
    ultimately show ?thesis using "1.IH" [OF False] by auto
  qed
qed

lemma dec6_plain: "c \<in> set (dec6 n) \<Longrightarrow> \<not> ctl c"
proof -
  assume "c \<in> set (dec6 n)"
  then have "c \<in> (\<lambda>j. digit_char ((n div 10 ^ j) mod 10)) ` set [5, 4, 3, 2, 1, 0::nat]"
    unfolding dec6_def by (simp only: set_map)
  then obtain j where "c = digit_char ((n div 10 ^ j) mod 10)"
    by blast
  then show ?thesis using digit_char_plain [of "(n div 10 ^ j) mod 10"] by simp
qed

lemma format_f_plain: "c \<in> set (format_f v) \<Longrightarrow> \<not> ctl c"
proof -
  assume "c \<in> set (format_f v)"
  then have "c = CHR ''-'' \<or> c = CHR ''.'' \<or>
      c \<in> set (dec (nat (round_half_even (\<bar>v\<bar> * 1000000)) div 1000000)) \<or>
      c \<in> set (dec6 (nat (round_half_even (\<bar>v\<bar> * 1000000)) mod 1000000))"
    by (auto simp: format_f_def Let_def split: if_splits)
  then show ?thesis using dec_plain dec6_plain by (auto simp: ctl_def NUL_def)
qed

lemma format_f_no_NUL: "NUL \<notin> set (format_f v)"
  using format_f_plain [of NUL v] by (auto simp: ctl_def)

lemma format_f_no_LF: "CHR 0x0A \<notin> set (format_f v)"
  using format_f_plain [of "CHR 0x0A" v] by (auto simp: ctl_def)


lemma round_half_even_bounds:
  "0 \<le> s \<Longrightarrow> 0 \<le> round_half_even s \<and> of_int (round_half_even s) \<le> s + 1"
  unfolding round_half_even_def Let_def
  by (auto; linarith)

lemma length_dec6: "length (dec6 n) = 6"
  by (simp add: dec6_def)

lemma format_f_length:
  assumes "in_turn v" shows "length (format_f v) = 8"
proof -
  let ?n = "nat (round_half_even (\<bar>v\<bar> * 1000000))"
  have v: "0 \<le> v" "v < 63 / 10" using assms pi_lt_31425 by (simp_all add: in_turn_def)
  then have "0 \<le> \<bar>v\<bar> * 1000000" "\<bar>v\<bar> * 1000000 + 1 < 6300001" by simp_all
  with round_half_even_bounds [of "\<bar>v\<bar> * 1000000"]
  have "0 \<le> round_half_even (\<bar>v\<bar> * 1000000)"
    "real_of_int (round_half_even (\<bar>v\<bar> * 1000000)) < 6300001" by linarith+
  then have "?n < 6300001" by linarith
  then have "?n div 1000000 < 10" by simp
  then have "dec (?n div 1000000) = [digit_char (?n div 1000000)]" by (subst dec.simps) simp
  then show ?thesis using v by (simp add: format_f_def Let_def length_dec6)
qed

lemma length_array_of: "length (array_of m n) = n"
  by (simp add: array_of_def)

lemma array_of_put_chars:
  assumes "a + length cs \<le> n"
  shows "array_of (put_chars a cs m) n =
         take a (array_of m n) @ cs @ drop (a + length cs) (array_of m n)"
proof (rule nth_equalityI)
  show "length (array_of (put_chars a cs m) n) =
        length (take a (array_of m n) @ cs @ drop (a + length cs) (array_of m n))"
    using assms by (simp add: length_array_of)
next
  fix k assume "k < length (array_of (put_chars a cs m) n)"
  then have k: "k < n" by (simp add: length_array_of)
  then show "array_of (put_chars a cs m) n ! k =
        (take a (array_of m n) @ cs @ drop (a + length cs) (array_of m n)) ! k"
    using assms by (auto simp: array_of_def bytes_put_chars nth_append)
qed

lemma array_of_zeroed: "array_of zeroed n = replicate n NUL"
  by (simp add: array_of_def zeroed_def map_replicate_const)

lemma snprintf_f_fits:
  "length (format_f v) < n \<Longrightarrow> snprintf_f str n v m = put_chars str (format_f v @ [NUL]) m"
  by (simp add: snprintf_f_def)

lemma pack_zeroed:
  assumes len: "list_all (\<lambda>v. length (format_f v) = W) vs"
  shows "k \<le> length vs \<Longrightarrow> k * W + 1 \<le> n \<Longrightarrow>
     array_of (fold (\<lambda>j. snprintf_f (j * W) (n - j * W) (vs ! j)) [0..<k] zeroed) n =
       concat (map format_f (take k vs)) @ replicate (n - k * W) NUL"
proof (induction k)
  case 0
  then show ?case by (simp add: array_of_zeroed)
next
  case (Suc k)
  let ?m = "fold (\<lambda>j. snprintf_f (j * W) (n - j * W) (vs ! j)) [0..<k] zeroed"
  let ?pre = "concat (map format_f (take k vs))"
  have k: "k < length vs" and n: "k * W + W + 1 \<le> n" using Suc.prems by simp_all
  have ih: "array_of ?m n = ?pre @ replicate (n - k * W) NUL"
    using Suc.prems by (intro Suc.IH) simp_all
  have w: "length (format_f (vs ! k)) = W"
    using len k by (simp add: list_all_length)
  have lp: "length ?pre = k * W"
    using len k
  proof (induction k)
    case 0
    then show ?case by simp
  next
    case (Suc k)
    then show ?case by (simp add: take_Suc_conv_app_nth list_all_length)
  qed
  have fits: "length (format_f (vs ! k)) < n - k * W" using w n by simp
  have "array_of (fold (\<lambda>j. snprintf_f (j * W) (n - j * W) (vs ! j)) [0..<Suc k] zeroed) n =
        array_of (put_chars (k * W) (format_f (vs ! k) @ [NUL]) ?m) n"
    by (simp add: snprintf_f_fits [OF fits])
  also have "\<dots> = take (k * W) (array_of ?m n) @ (format_f (vs ! k) @ [NUL]) @
        drop (k * W + length (format_f (vs ! k) @ [NUL])) (array_of ?m n)"
    using n w by (intro array_of_put_chars) simp
  also have "\<dots> = ?pre @ format_f (vs ! k) @ [NUL] @ replicate (n - (k * W + W + 1)) NUL"
    unfolding ih using lp w n by simp
  also have "[NUL] @ replicate (n - (k * W + W + 1)) NUL = replicate (n - Suc k * W) NUL"
  proof -
    have "n - Suc k * W = Suc (n - (k * W + W + 1))" using n by simp
    then show ?thesis by simp
  qed
  also have "?pre @ format_f (vs ! k) @ replicate (n - Suc k * W) NUL =
      concat (map format_f (take (Suc k) vs)) @ replicate (n - Suc k * W) NUL"
    using k by (simp add: take_Suc_conv_app_nth)
  finally show ?case .
qed

lemma takeWhile_to_NUL:
  "NUL \<notin> set xs \<Longrightarrow> takeWhile (\<lambda>c. c \<noteq> NUL) (xs @ NUL # ys) = xs"
  by (induction xs) auto

lemma c_str_terminated:
  "NUL \<notin> set xs \<Longrightarrow> c_str (xs @ replicate (Suc k) NUL) = Some xs"
  by (simp add: c_str_def takeWhile_to_NUL)

lemma SendDataToSerial_line:
  assumes "state_ok r"
  shows "SendDataToSerial r = Some (concat (map format_f (angles r)) @ [CHR 0x0D, CHR 0x0A])"
proof -
  from assms obtain c0 c1 c2 c3 where cs: "canard_rotations r = [c0, c1, c2, c3]"
    by (auto simp: state_ok_def elim: length4E)
  let ?vs = "[pitch r, roll r, yaw r, c0, c1, c2, c3]"
  have vs: "angles r = ?vs" by (simp add: angles_def cs)
  have len: "list_all (\<lambda>v. length (format_f v) = 8) ?vs"
    using assms unfolding state_ok_def vs by (simp add: format_f_length)
  have pc: "packed_count 7 57 8 = 7" by (simp add: packed_count_def)
  have "array_of (PackFloatsInStr 0 57 ?vs 7 8 zeroed) 57 =
      concat (map format_f (take 7 ?vs)) @ replicate (57 - 7 * 8) NUL"
    unfolding PackFloatsInStr_closed_form pc
    using pack_zeroed [OF len, of 7 57] by simp
  then have arr: "array_of (PackFloatsInStr 0 57 ?vs 7 8 zeroed) 57 =
      concat (map format_f ?vs) @ replicate (Suc 0) NUL"
    by simp
  have "NUL \<notin> set (concat (map format_f ?vs))"
    using format_f_no_NUL by simp
  then have "c_str (array_of (PackFloatsInStr 0 57 ?vs 7 8 zeroed) 57) =
      Some (concat (map format_f ?vs))"
    unfolding arr by (rule c_str_terminated)
  moreover have "SendDataToSerial r =
      map_option Serial_println (c_str (array_of (PackFloatsInStr 0 57 ?vs 7 8 zeroed) 57))"
  proof -
    have nths: "[c0, c1, c2, c3] ! 0 = c0" "[c0, c1, c2, c3] ! 1 = c1"
      "[c0, c1, c2, c3] ! 2 = c2" "[c0, c1, c2, c3] ! 3 = c3"
      by simp_all
    have l: "length ?vs = 7" and sz: "8 * 7 + 1 = (57::nat)" by simp_all
    show ?thesis
      unfolding SendDataToSerial_def Let_def cs nths l sz by (rule refl)
  qed
  ultimately show ?thesis
    unfolding vs by (simp only: option.map Serial_println_def)
qed

lemma loop_snd: "snd (loop t g) = SendDataToSerial (rocket (fst (loop t g)))"
  by (simp add: loop_def Let_def)

lemma length_serial_out: "length (serial_out ts g) = length ts"
  by (induction ts arbitrary: g) simp_all

text \<open>
  Claim C5. For every buffer size, float array and width, the serializer stores only to
  offsets inside the buffer. It formats the floats in order, the \<open>j\<close>-th one at offset
  \<open>j\<close> times the width with the budget that is left there, and returns (with nothing but the
  buffer as result) after the last float or as soon as fewer bytes than the width are left.
\<close>

theorem PackFloatsInStr_within_buffer:
  "list_all (\<lambda>a. str \<le> a \<and> a < str + str_size)
     (writes (PackFloatsInStr str str_size floats (length floats) float_chars
                (m\<lparr>writes := []\<rparr>))) \<and>
   PackFloatsInStr str str_size floats (length floats) float_chars m =
     fold (\<lambda>j. snprintf_f (str + j * float_chars) (str_size - j * float_chars) (floats ! j))
       [0..<packed_count (length floats) str_size float_chars] m \<and>
   (packed_count (length floats) str_size float_chars = length floats \<or>
    str_size - packed_count (length floats) str_size float_chars * float_chars < float_chars)"
proof -
  have "set (writes (PackFloatsInStr str str_size floats (length floats) float_chars
                (m\<lparr>writes := []\<rparr>))) \<subseteq> {str..<str + str_size}"
    using writes_loop_bound [of 0 str str_size floats "length floats" float_chars
        "m\<lparr>writes := []\<rparr>"]
    by (simp add: PackFloatsInStr_def)
  then have "list_all (\<lambda>a. str \<le> a \<and> a < str + str_size)
     (writes (PackFloatsInStr str str_size floats (length floats) float_chars
                (m\<lparr>writes := []\<rparr>)))"
    by (auto simp: list_all_iff)
  then show ?thesis
    using PackFloatsInStr_closed_form [of str str_size floats "length floats" float_chars m]
      packed_count_full_or_short [of "length floats" str_size float_chars]
    by blast
qed

text \<open>
  Claim C8. Each tick of the simulation build sends one line: the seven fields pitch, roll,
  yaw and canards 0 to 3 in this order, each the \<^verbatim>\<open>%f\<close> text of the value and exactly 8
  characters long, with nothing between them, followed by the line ending of
  \<^verbatim>\<open>println\<close> (carriage return, line feed); the fields hold no line feed, and a run of
  ticks sends as many lines as it has ticks.
\<close>

theorem telemetry_line_format:
  "(let g = run ts (setup_state t0);
        r = rocket (fst (loop t g));
        fields = [pitch r, roll r, yaw r] @ canard_rotations r
    in snd (loop t g) = Some (concat (map format_f fields) @ [CHR 0x0D, CHR 0x0A]) \<and>
       length fields = 7 \<and>
       list_all (\<lambda>v. length (format_f v) = 8) fields \<and>
       CHR 0x0A \<notin> set (concat (map format_f fields))) \<and>
   length (serial_out ts g0) = length ts"
proof -
  let ?g = "run ts (setup_state t0)"
  let ?r = "rocket (fst (loop t ?g))"
  have ok: "state_ok ?r"
    using state_ok_loop [OF state_ok_reachable] .
  have line: "snd (loop t ?g) = Some (concat (map format_f (angles ?r)) @ [CHR 0x0D, CHR 0x0A])"
    unfolding loop_snd using ok by (rule SendDataToSerial_line)
  have len: "length (angles ?r) = 7"
    using ok by (simp add: state_ok_def angles_def)
  have "list_all in_turn (angles ?r)" using ok by (simp add: state_ok_def)
  then have w: "list_all (\<lambda>v. length (format_f v) = 8) (angles ?r)"
    by (simp add: list_all_iff format_f_length)
  have lf: "CHR 0x0A \<notin> set (concat (map format_f (angles ?r)))"
    using format_f_no_LF by simp
  show ?thesis
    using line len w lf unfolding Let_def angles_def by (simp only: length_serial_out simp_thms)
qed

text \<open>
  Claim C10. Packing 1.0, 2.0 and 3.0 with width 8 into a zeroed buffer of size 25 fills it
  with the three 8-character texts and the terminator. With size 10 only the first float is
  packed: the stores reach offsets 0 to 8 (the text and its terminator), and the last byte
  keeps the zero it had.
\<close>

theorem pack_three_floats:
  "array_of (PackFloatsInStr 0 25 [1, 2, 3] 3 8 zeroed) 25 =
     ''1.0000002.0000003.000000'' @ [NUL] \<and>
   array_of (PackFloatsInStr 0 10 [1, 2, 3] 3 8 zeroed) 10 = ''1.000000'' @ [NUL, NUL] \<and>
   writes (PackFloatsInStr 0 10 [1, 2, 3] 3 8 zeroed) = [0, 1, 2, 3, 4, 5, 6, 7, 8]"
  using a25 a10 w10 by blast

end
